theory Spec2Isabelle
  imports Main "HOL-Library.Word" "HOL-Library.Monad_Syntax"
begin

section \<open>Data model\<close>

text \<open>
  The parser of \<^verbatim>\<open>src/__init__.py\<close> works on Python \<^verbatim>\<open>bytes\<close> and on
  unbounded Python integers. A byte is an \<open>8 word\<close>, an integer is an \<open>int\<close>.
  The two exceptions that the code can raise are values of \<open>error\<close>.
\<close>

type_synonym byte = "8 word"

datatype error = StructError | IndexError

text \<open>
  A BSS section is the dict \<^verbatim>\<open>{"address", "size"}\<close>; a text or data section is the dict
  \<^verbatim>\<open>{"offset", "address", "size"}\<close>, that is a BSS section extended by the file offset.
  The field \<^verbatim>\<open>size\<close> is called \<open>size_bytes\<close> (\<open>size\<close> is a constant of HOL).
\<close>

record bss_section =
  address :: int
  size_bytes :: int

record init_section = bss_section +
  offset :: int

section \<open>Decoding\<close>

text \<open>Python's \<^verbatim>\<open>data[a:b]\<close> for \<open>0 \<le> a \<le> b\<close>: shorter when the data ends early.\<close>

definition py_slice :: "'a list \<Rightarrow> nat \<Rightarrow> nat \<Rightarrow> 'a list" where
  "py_slice data a b = take (b - a) (drop a data)"

text \<open>One big-endian unsigned 32-bit integer, the \<^verbatim>\<open>>L\<close> of \<^verbatim>\<open>struct\<close>.\<close>

definition be32 :: "byte list \<Rightarrow> int" where
  "be32 bs = foldl (\<lambda>acc b. acc * 256 + uint b) 0 bs"

text \<open>
  \<^verbatim>\<open>struct.unpack(">nL", bs)\<close>: raises \<^verbatim>\<open>struct.error\<close> unless \<open>bs\<close> has exactly
  \<open>4 * n\<close> bytes.
\<close>

definition unpack_L :: "nat \<Rightarrow> byte list \<Rightarrow> error + int list" where
  "unpack_L n bs =
     (if length bs \<noteq> 4 * n then Inl StructError
      else Inr (map (\<lambda>k. be32 (py_slice bs (4 * k) (4 * k + 4))) [0..<n]))"

definition bind_err :: "error + 'a \<Rightarrow> ('a \<Rightarrow> error + 'b) \<Rightarrow> error + 'b" where
  "bind_err m f = (case m of Inl e \<Rightarrow> Inl e | Inr x \<Rightarrow> f x)"

text \<open>
  The loop of \<^verbatim>\<open>parseSections\<close>, by index as in the source: \<open>i\<close> is the loop variable,
  \<open>sections\<close> the list built so far. Reading \<^verbatim>\<open>addresses[i]\<close> or \<^verbatim>\<open>sizes[i]\<close> out of
  range raises \<^verbatim>\<open>IndexError\<close>.
\<close>

function parseSections_loop ::
  "int list \<Rightarrow> int list \<Rightarrow> int list \<Rightarrow> nat \<Rightarrow> init_section list \<Rightarrow> error + init_section list" where
  "parseSections_loop offsets addresses sizes i sections =
     (if i < length offsets then
        (if offsets ! i = 0 then Inr sections
         else if i < length addresses then
           (if i < length sizes then
              parseSections_loop offsets addresses sizes (Suc i)
                (sections @ [\<lparr>address = addresses ! i, size_bytes = sizes ! i, offset = offsets ! i\<rparr>])
            else Inl IndexError)
         else Inl IndexError)
      else Inr sections)"
  by pat_completeness auto
termination
  by (relation "measure (\<lambda>(offsets, addresses, sizes, i, sections). length offsets - i)") auto

declare parseSections_loop.simps [simp del]

definition parseSections :: "int list \<Rightarrow> int list \<Rightarrow> int list \<Rightarrow> error + init_section list" where
  "parseSections offsets addresses sizes = parseSections_loop offsets addresses sizes 0 []"

subsection \<open>BSS carving\<close>

text \<open>
  One iteration of the body of the carving loop, before the early-out test: the result
  is \<open>(break, current_start, bssSections)\<close>.
\<close>

definition carve_branch ::
  "init_section \<Rightarrow> int \<Rightarrow> int \<Rightarrow> bss_section list \<Rightarrow> bool \<times> int \<times> bss_section list" where
  "carve_branch carving_section current_start current_end bssSections =
     (let carving_start = address carving_section;
          carving_end = carving_start + size_bytes carving_section
      in if carving_start \<le> current_start \<and> carving_end \<ge> current_end then
           (True, current_end, bssSections)
         else if carving_start \<le> current_start \<and> carving_end > current_start
                 \<and> carving_end < current_end then
           (False, carving_end, bssSections)
         else if carving_start > current_start then
           (False, min carving_end current_end,
            bssSections @ [\<lparr>address = current_start, size_bytes = carving_start - current_start\<rparr>])
         else (False, current_start, bssSections))"

fun carve_loop ::
  "init_section list \<Rightarrow> int \<Rightarrow> int \<Rightarrow> bss_section list \<Rightarrow> int \<times> bss_section list" where
  "carve_loop [] current_start current_end bssSections = (current_start, bssSections)"
| "carve_loop (carving_section # rest) current_start current_end bssSections =
     (case carve_branch carving_section current_start current_end bssSections of
        (brk, current_start', bssSections') \<Rightarrow>
          if brk then (current_start', bssSections')
          else if current_start' \<ge> current_end then (current_start', bssSections')
          else carve_loop rest current_start' current_end bssSections')"

text \<open>
  Lines 32 to 67: sort the obstacles by address (Python's sort is stable, as
  \<open>sort_key\<close> is), sweep, and flush the last section.
\<close>

definition carve :: "int \<Rightarrow> int \<Rightarrow> init_section list \<Rightarrow> bss_section list" where
  "carve bssAddress bssSize sections =
     (let sorted_carving_sections = sort_key address sections;
          current_end = bssAddress + bssSize
      in case carve_loop sorted_carving_sections bssAddress current_end [] of
           (current_start, bssSections) \<Rightarrow>
             if current_start < current_end then
               bssSections @ [\<lparr>address = current_start, size_bytes = current_end - current_start\<rparr>]
             else bssSections)"

text \<open>The decoded header, the dict that \<^verbatim>\<open>parseHeader\<close> returns.\<close>

record header =
  textSections :: "init_section list"
  dataSections :: "init_section list"
  bssSections :: "bss_section list"
  entrypoint :: int

text \<open>\<^verbatim>\<open>t[0]\<close> on the tuple that \<^verbatim>\<open>struct.unpack\<close> returns.\<close>

definition index0 :: "int list \<Rightarrow> error + int" where
  "index0 t = (case t of [] \<Rightarrow> Inl IndexError | x # rest \<Rightarrow> Inr x)"

definition parseHeader :: "byte list \<Rightarrow> error + header" where
  "parseHeader data =
     bind_err (unpack_L 7 (py_slice data 0x00 0x1c)) (\<lambda>textOffsets.
     bind_err (unpack_L 11 (py_slice data 0x1c 0x48)) (\<lambda>dataOffsets.
     bind_err (unpack_L 7 (py_slice data 0x48 0x64)) (\<lambda>textAddresses.
     bind_err (unpack_L 11 (py_slice data 0x64 0x90)) (\<lambda>dataAddresses.
     bind_err (unpack_L 7 (py_slice data 0x90 0xac)) (\<lambda>textSizes.
     bind_err (unpack_L 11 (py_slice data 0xac 0xd8)) (\<lambda>dataSizes.
     bind_err (bind_err (unpack_L 1 (py_slice data 0xd8 0xdc)) index0) (\<lambda>bssAddress.
     bind_err (bind_err (unpack_L 1 (py_slice data 0xdc 0xe0)) index0) (\<lambda>bssSize.
     bind_err (bind_err (unpack_L 1 (py_slice data 0xe0 0xe4)) index0) (\<lambda>entrypoint_v.
     bind_err (parseSections textOffsets textAddresses textSizes) (\<lambda>textSections_v.
     bind_err (parseSections dataOffsets dataAddresses dataSizes) (\<lambda>dataSections_v.
       Inr \<lparr>textSections = textSections_v, dataSections = dataSections_v,
            bssSections =
              (if bssAddress \<noteq> 0 then carve bssAddress bssSize (textSections_v @ dataSections_v)
               else []),
            entrypoint = entrypoint_v\<rparr>)))))))))))"

section \<open>Validation\<close>

text \<open>Lines 94 to 96: every initialized section ends inside the file.\<close>

fun sections_inside_file :: "init_section list \<Rightarrow> int \<Rightarrow> bool" where
  "sections_inside_file [] filesize = True"
| "sections_inside_file (s # rest) filesize =
     (if offset s + size_bytes s > filesize then False
      else sections_inside_file rest filesize)"

text \<open>Lines 99 to 103: every section is loaded into valid memory.\<close>

fun sections_in_valid_memory :: "bss_section list \<Rightarrow> bool" where
  "sections_in_valid_memory [] = True"
| "sections_in_valid_memory (s # rest) =
     (if \<not> (0x80000000 \<le> address s \<and> address s < 0x81800000) then False
      else if \<not> (0x80000000 \<le> address s + size_bytes s
                  \<and> address s + size_bytes s \<le> 0x81800000) then False
      else sections_in_valid_memory rest)"

text \<open>
  Lines 108 to 112 and 117 to 122: the loops over adjacent pairs \<open>(xs[i], xs[i + 1])\<close>
  for \<open>i\<close> in \<open>range(len(xs) - 1)\<close>, which is empty for an empty list.
\<close>

fun offsets_disjoint :: "init_section list \<Rightarrow> bool" where
  "offsets_disjoint (firstSection # secondSection # rest) =
     (if offset firstSection + size_bytes firstSection > offset secondSection then False
      else offsets_disjoint (secondSection # rest))"
| "offsets_disjoint xs = True"

fun addresses_disjoint :: "bss_section list \<Rightarrow> bool" where
  "addresses_disjoint (firstSection # secondSection # rest) =
     (if address firstSection + size_bytes firstSection > address secondSection then False
      else addresses_disjoint (secondSection # rest))"
| "addresses_disjoint xs = True"

text \<open>Lines 125 to 129: the search for a text section that holds the entry point.\<close>

fun entrypointValid :: "init_section list \<Rightarrow> int \<Rightarrow> bool" where
  "entrypointValid [] ep = False"
| "entrypointValid (s # rest) ep =
     (if address s \<le> ep \<and> ep < address s + size_bytes s then True
      else entrypointValid rest ep)"

text \<open>
  \<^verbatim>\<open>allSections\<close> mixes sections with and without \<^verbatim>\<open>offset\<close>; the code reads only
  \<^verbatim>\<open>address\<close> and \<^verbatim>\<open>size\<close> of its elements, so the initialized sections enter it
  without their offset.
\<close>

definition validateHeader :: "header \<Rightarrow> int \<Rightarrow> bool" where
  "validateHeader hdr filesize =
     (let initializedSections = textSections hdr @ dataSections hdr;
          allSections = map bss_section.truncate initializedSections @ bssSections hdr
      in if length (textSections hdr) < 1 then False
         else if \<not> sections_inside_file initializedSections filesize then False
         else if \<not> sections_in_valid_memory allSections then False
         else if \<not> offsets_disjoint (sort_key offset initializedSections) then False
         else if \<not> addresses_disjoint (sort_key address allSections) then False
         else if \<not> entrypointValid (textSections hdr) (entrypoint hdr) then False
         else True)"


section \<open>The validator on a store\<close>

text \<open>
  Python lists are mutable objects, and \<^verbatim>\<open>validateHeader\<close> sorts lists in place. To see
  what it does to the lists of its argument, the same function is written over a store
  of objects: a reference is a number, the store maps references to list objects and to
  header dicts, and \<open>next_ref\<close> is the next free reference. A list of sections with
  offsets and a list of which only \<^verbatim>\<open>address\<close> and \<^verbatim>\<open>size\<close> are read are kept
  apart, as in \<open>validateHeader\<close>. The section dicts themselves are only read by the
  code, so lists hold them by value. \<^verbatim>\<open>a + b\<close> and \<^verbatim>\<open>a.copy()\<close> make a new list
  object, \<^verbatim>\<open>a.sort(key = ...)\<close> replaces the content of the object \<open>a\<close>.
\<close>

type_synonym ref = nat

record header_dict =
  textSections_ref :: ref
  dataSections_ref :: ref
  bssSections_ref :: ref
  entrypoint_val :: int

record store =
  section_lists :: "ref \<rightharpoonup> init_section list"
  extent_lists :: "ref \<rightharpoonup> bss_section list"
  header_dicts :: "ref \<rightharpoonup> header_dict"
  next_ref :: ref

definition new_section_list :: "init_section list \<Rightarrow> store \<Rightarrow> ref \<times> store" where
  "new_section_list xs st =
     (next_ref st,
      st\<lparr>section_lists := (section_lists st)(next_ref st \<mapsto> xs), next_ref := Suc (next_ref st)\<rparr>)"

definition new_extent_list :: "bss_section list \<Rightarrow> store \<Rightarrow> ref \<times> store" where
  "new_extent_list xs st =
     (next_ref st,
      st\<lparr>extent_lists := (extent_lists st)(next_ref st \<mapsto> xs), next_ref := Suc (next_ref st)\<rparr>)"

definition sort_section_list_by_offset :: "ref \<Rightarrow> store \<Rightarrow> store option" where
  "sort_section_list_by_offset r st =
     (case section_lists st r of
        None \<Rightarrow> None
      | Some xs \<Rightarrow> Some (st\<lparr>section_lists := (section_lists st)(r \<mapsto> sort_key offset xs)\<rparr>))"

definition sort_extent_list_by_address :: "ref \<Rightarrow> store \<Rightarrow> store option" where
  "sort_extent_list_by_address r st =
     (case extent_lists st r of
        None \<Rightarrow> None
      | Some xs \<Rightarrow> Some (st\<lparr>extent_lists := (extent_lists st)(r \<mapsto> sort_key address xs)\<rparr>))"

text \<open>
  \<^verbatim>\<open>validateHeader\<close>, statement by statement; \<open>h\<close> is the reference of the header dict.
  The result is \<open>None\<close> when a reference is dangling.
\<close>

definition validateHeader_st :: "store \<Rightarrow> ref \<Rightarrow> int \<Rightarrow> (bool \<times> store) option" where
  "validateHeader_st st0 h filesize = do {
     hdr \<leftarrow> header_dicts st0 h;
     let textSections_r = textSections_ref hdr;
     let dataSections_r = dataSections_ref hdr;
     let bssSections_r = bssSections_ref hdr;
     let entrypoint_v = entrypoint_val hdr;
     ts \<leftarrow> section_lists st0 textSections_r;
     ds \<leftarrow> section_lists st0 dataSections_r;
     let (initializedSections, st1) = new_section_list (ts @ ds) st0;
     ins \<leftarrow> section_lists st1 initializedSections;
     bs \<leftarrow> extent_lists st1 bssSections_r;
     let (allSections, st2) = new_extent_list (map bss_section.truncate ins @ bs) st1;
     ts \<leftarrow> section_lists st2 textSections_r;
     if length ts < 1 then Some (False, st2) else do {
     ins \<leftarrow> section_lists st2 initializedSections;
     if \<not> sections_inside_file ins filesize then Some (False, st2) else do {
     alls \<leftarrow> extent_lists st2 allSections;
     if \<not> sections_in_valid_memory alls then Some (False, st2) else do {
     ins \<leftarrow> section_lists st2 initializedSections;
     let (sectionsByOffset, st3) = new_section_list ins st2;
     st4 \<leftarrow> sort_section_list_by_offset sectionsByOffset st3;
     byOffset \<leftarrow> section_lists st4 sectionsByOffset;
     if \<not> offsets_disjoint byOffset then Some (False, st4) else do {
     alls \<leftarrow> extent_lists st4 allSections;
     let (sectionsByAddress, st5) = new_extent_list alls st4;
     st6 \<leftarrow> sort_extent_list_by_address sectionsByAddress st5;
     byAddress \<leftarrow> extent_lists st6 sectionsByAddress;
     if \<not> addresses_disjoint byAddress then Some (False, st6) else do {
     ts \<leftarrow> section_lists st6 textSections_r;
     if \<not> entrypointValid ts entrypoint_v then Some (False, st6)
     else Some (True, st6) } } } } } }"

text \<open>The header, as a value, that the objects reachable from \<open>h\<close> hold.\<close>

definition load_header :: "store \<Rightarrow> ref \<Rightarrow> header option" where
  "load_header st h = do {
     hdr \<leftarrow> header_dicts st h;
     ts \<leftarrow> section_lists st (textSections_ref hdr);
     ds \<leftarrow> section_lists st (dataSections_ref hdr);
     bs \<leftarrow> extent_lists st (bssSections_ref hdr);
     Some \<lparr>textSections = ts, dataSections = ds, bssSections = bs,
           entrypoint = entrypoint_val hdr\<rparr> }"

text \<open>The lists of the header dict at \<open>h\<close> are objects that were allocated before.\<close>

definition allocated :: "store \<Rightarrow> ref \<Rightarrow> bool" where
  "allocated st h \<longleftrightarrow>
     (case header_dicts st h of
        None \<Rightarrow> False
      | Some hdr \<Rightarrow> textSections_ref hdr < next_ref st \<and> dataSections_ref hdr < next_ref st
          \<and> bssSections_ref hdr < next_ref st)"

text \<open>A store with one header, whose data section precedes the text section in the file.\<close>

definition example_store :: store where
  "example_store =
     \<lparr>section_lists = [0 \<mapsto> [\<lparr>address = 0x80003100, size_bytes = 0x200, offset = 0x100\<rparr>],
                        1 \<mapsto> [\<lparr>address = 0x80003300, size_bytes = 0x40, offset = 0x40\<rparr>]],
      extent_lists = [2 \<mapsto> [\<lparr>address = 0x80003400, size_bytes = 0x100\<rparr>]],
      header_dicts = [3 \<mapsto> \<lparr>textSections_ref = 0, dataSections_ref = 1, bssSections_ref = 2,
                              entrypoint_val = 0x80003100\<rparr>],
      next_ref = 4\<rparr>"


section \<open>Example images\<close>

text \<open>
  The example scenario of the specification: one text section, no data section, a BSS
  range behind the text section, and the entry point at the start of the text section.
\<close>

definition example_header :: header where
  "example_header =
     \<lparr>textSections = [\<lparr>address = 0x80003100, size_bytes = 0x200, offset = 0x100\<rparr>],
      dataSections = [],
      bssSections = [\<lparr>address = 0x80003400, size_bytes = 0x100\<rparr>],
      entrypoint = 0x80003100\<rparr>"

section \<open>Notions for stating the properties\<close>

text \<open>
  The section that slot \<open>j\<close> of a table holds, the 32-bit field at a byte offset of
  the header, and the sections and the header that the tables of a buffer describe.
\<close>

definition slot :: "int list \<Rightarrow> int list \<Rightarrow> int list \<Rightarrow> nat \<Rightarrow> init_section" where
  "slot offsets addresses sizes j =
     \<lparr>address = addresses ! j, size_bytes = sizes ! j, offset = offsets ! j\<rparr>"

definition slots :: "int list \<Rightarrow> int list \<Rightarrow> int list \<Rightarrow> init_section list" where
  "slots offsets addresses sizes =
     map (slot offsets addresses sizes) [0 ..< length (takeWhile (\<lambda>v. v \<noteq> 0) offsets)]"

definition field32 :: "byte list \<Rightarrow> nat \<Rightarrow> int" where
  "field32 data a = be32 (py_slice data a (a + 4))"

definition fields32 :: "byte list \<Rightarrow> nat \<Rightarrow> nat \<Rightarrow> int list" where
  "fields32 data a n = map (\<lambda>k. field32 data (a + 4 * k)) [0..<n]"

definition decoded :: "byte list \<Rightarrow> header" where
  "decoded data =
     (let text = slots (fields32 data 0x00 7) (fields32 data 0x48 7) (fields32 data 0x90 7);
          dat = slots (fields32 data 0x1c 11) (fields32 data 0x64 11) (fields32 data 0xac 11)
      in \<lparr>textSections = text, dataSections = dat,
          bssSections =
            (if field32 data 0xd8 \<noteq> 0
             then carve (field32 data 0xd8) (field32 data 0xdc) (text @ dat) else []),
          entrypoint = field32 data 0xe0\<rparr>)"

text \<open>A buffer of 0xE4 zero bytes, and one that declares only a BSS range.\<close>

definition zero_image :: "byte list" where
  "zero_image = replicate 0xe4 0"

definition bss_only_image :: "byte list" where
  "bss_only_image = replicate 0xd8 0 @ [0x80, 0x00, 0x34, 0x00] @ [0x00, 0x00, 0x01, 0x00] @ [0, 0, 0, 0]"

text \<open>The checks of \<open>validateHeader\<close> that come before the entry point check.\<close>

definition checks_before_entrypoint :: "header \<Rightarrow> int \<Rightarrow> bool" where
  "checks_before_entrypoint hdr filesize =
     (let initializedSections = textSections hdr @ dataSections hdr;
          allSections = map bss_section.truncate initializedSections @ bssSections hdr
      in length (textSections hdr) \<ge> 1
         \<and> sections_inside_file initializedSections filesize
         \<and> sections_in_valid_memory allSections
         \<and> offsets_disjoint (sort_key offset initializedSections)
         \<and> addresses_disjoint (sort_key address allSections))"

text \<open>A header whose only text section has size 0, with the entry point at its address.\<close>

definition empty_text_header :: header where
  "empty_text_header =
     \<lparr>textSections = [\<lparr>address = 0x80003100, size_bytes = 0, offset = 0x100\<rparr>],
      dataSections = [], bssSections = [], entrypoint = 0x80003100\<rparr>"

text \<open>
  A point inside the address extent \<open>[address, address + size)\<close> of a section, two
  sections with a common point, a fragment that ends at or before the start of another,
  and a fragment that lies in the nominal range \<open>[bssAddress, bssAddress + bssSize)\<close>.
\<close>

definition inside :: "'a bss_section_scheme \<Rightarrow> int \<Rightarrow> bool" where
  "inside s p \<longleftrightarrow> address s \<le> p \<and> p < address s + size_bytes s"

definition overlap :: "'a bss_section_scheme \<Rightarrow> 'b bss_section_scheme \<Rightarrow> bool" where
  "overlap s t \<longleftrightarrow>
     max (address s) (address t) < min (address s + size_bytes s) (address t + size_bytes t)"

definition sub_interval :: "bss_section \<Rightarrow> int \<Rightarrow> int \<Rightarrow> bool" where
  "sub_interval f bssAddress bssSize \<longleftrightarrow>
     bssAddress \<le> address f \<and> address f + size_bytes f \<le> bssAddress + bssSize"

text \<open>
  An image with a text section at 0x80003100, a BSS range \<open>[0x80003400, 0x80003500)\<close>
  and a data section at 0x80004000, behind the end of the BSS range.
\<close>

definition stray_data_image :: "byte list" where
  "stray_data_image =
     [0x00, 0x00, 0x01, 0x00] @ replicate 24 0 @
     [0x00, 0x00, 0x03, 0x00] @ replicate 40 0 @
     [0x80, 0x00, 0x31, 0x00] @ replicate 24 0 @
     [0x80, 0x00, 0x40, 0x00] @ replicate 40 0 @
     [0x00, 0x00, 0x02, 0x00] @ replicate 24 0 @
     [0x00, 0x00, 0x01, 0x00] @ replicate 40 0 @
     [0x80, 0x00, 0x34, 0x00] @ [0x00, 0x00, 0x01, 0x00] @ [0x80, 0x00, 0x31, 0x00]"

text \<open>An obstacle in the middle of the range \<open>[0x80003400, 0x80003500)\<close>.\<close>

definition inner_obstacle :: "init_section list" where
  "inner_obstacle = [\<lparr>address = 0x80003440, size_bytes = 0x40, offset = 0x300\<rparr>]"

text \<open>An obstacle behind the end of the range \<open>[0x80003400, 0x80003500)\<close>.\<close>

definition stray_obstacle :: "init_section list" where
  "stray_obstacle = [\<lparr>address = 0x80004000, size_bytes = 0x100, offset = 0x300\<rparr>]"

definition ends_before :: "bss_section \<Rightarrow> bss_section \<Rightarrow> bool" where
  "ends_before f g \<longleftrightarrow> address f + size_bytes f \<le> address g"

text \<open>
  What one run of the loop from the window \<open>[cs, ce)\<close> over sorted obstacles has done
  when it stops with the window start \<open>cs'\<close> and the new fragments \<open>new\<close>.
\<close>

definition swept ::
  "init_section list \<Rightarrow> int \<Rightarrow> int \<Rightarrow> int \<Rightarrow> bss_section list \<Rightarrow> bool" where
  "swept obs cs ce cs' new \<longleftrightarrow>
     cs \<le> cs' \<and> cs' \<le> ce
     \<and> (\<forall>f\<in>set new. cs \<le> address f \<and> 0 < size_bytes f)
     \<and> sorted_wrt ends_before new
     \<and> (\<forall>f\<in>set new. \<forall>s\<in>set obs.
           address f + size_bytes f \<le> address s \<or> address s + size_bytes s \<le> address f)
     \<and> (cs' < ce \<longrightarrow>
           (\<forall>f\<in>set new. address f + size_bytes f \<le> cs')
           \<and> (\<forall>s\<in>set obs. address s + size_bytes s \<le> cs'))
     \<and> (\<forall>p. cs \<le> p \<and> p < ce \<longrightarrow>
           (\<exists>s\<in>set obs. inside s p) \<or> (\<exists>f\<in>set new. inside f p) \<or> cs' \<le> p)"


section \<open>Decoding the slot tables\<close>

lemma parseSections_loop_eq:
  "i \<le> length offsets \<Longrightarrow> length offsets \<le> length addresses \<Longrightarrow>
   length offsets \<le> length sizes \<Longrightarrow>
   parseSections_loop offsets addresses sizes i sections =
     Inr (sections @ map (slot offsets addresses sizes)
            [i ..< i + length (takeWhile (\<lambda>v. v \<noteq> 0) (drop i offsets))])"
proof (induction offsets addresses sizes i sections rule: parseSections_loop.induct)
  case (1 offsets addresses sizes i sections)
  show ?case
  proof (cases "i < length offsets")
    case False
    with "1.prems" show ?thesis
      by (subst parseSections_loop.simps) simp
  next
    case True
    then have split: "drop i offsets = offsets ! i # drop (Suc i) offsets"
      by (simp add: Cons_nth_drop_Suc)
    show ?thesis
    proof (cases "offsets ! i = 0")
      case zero: True
      with True split show ?thesis
        by (subst parseSections_loop.simps) simp
    next
      case nonzero: False
      from True "1.prems" have inb: "i < length addresses" "i < length sizes"
        by simp_all
      have ih: "parseSections_loop offsets addresses sizes (Suc i)
                  (sections @ [slot offsets addresses sizes i]) =
                Inr ((sections @ [slot offsets addresses sizes i]) @
                     map (slot offsets addresses sizes)
                       [Suc i ..< Suc i + length (takeWhile (\<lambda>v. v \<noteq> 0) (drop (Suc i) offsets))])"
        unfolding slot_def [of offsets addresses sizes i]
        using "1.IH" [OF True nonzero inb] True "1.prems" by simp
      have "parseSections_loop offsets addresses sizes i sections =
            parseSections_loop offsets addresses sizes (Suc i)
              (sections @ [slot offsets addresses sizes i])"
        using True nonzero inb
        by (subst parseSections_loop.simps) (simp add: slot_def)
      also note ih
      finally have run: "parseSections_loop offsets addresses sizes i sections =
          Inr (sections @ map (slot offsets addresses sizes)
                 (i # [Suc i ..< Suc i + length (takeWhile (\<lambda>v. v \<noteq> 0) (drop (Suc i) offsets))]))"
        by simp
      have "[i ..< i + length (takeWhile (\<lambda>v. v \<noteq> 0) (drop i offsets))] =
            i # [Suc i ..< Suc i + length (takeWhile (\<lambda>v. v \<noteq> 0) (drop (Suc i) offsets))]"
        using nonzero by (subst split) (simp add: upt_conv_Cons del: upt_Suc)
      with run show ?thesis
        by simp
    qed
  qed
qed

lemma parseSections_eq:
  "length offsets \<le> length addresses \<Longrightarrow> length offsets \<le> length sizes \<Longrightarrow>
   parseSections offsets addresses sizes =
     Inr (map (slot offsets addresses sizes) [0 ..< length (takeWhile (\<lambda>v. v \<noteq> 0) offsets)])"
  by (simp add: parseSections_def parseSections_loop_eq)

text \<open>
  Claim C6: decoding a slot table stops at the first zero offset. If slot \<open>i\<close> is the
  first slot whose offset is 0, \<open>parseSections\<close> returns exactly the sections of the
  slots \<open>0, \<dots>, i - 1\<close>, in slot order, each with the offset, address and size of its
  own index, whatever the slots after \<open>i\<close> hold.
\<close>

theorem parseSections_first_zero:
  assumes "i < length offsets" and "offsets ! i = 0" and "\<forall>j<i. offsets ! j \<noteq> 0"
    and "length addresses = length offsets" and "length sizes = length offsets"
  shows "parseSections offsets addresses sizes =
           Inr (map (\<lambda>j. \<lparr>address = addresses ! j, size_bytes = sizes ! j, offset = offsets ! j\<rparr>)
                  [0..<i])"
proof -
  have "takeWhile (\<lambda>v. v \<noteq> 0) offsets = take i offsets"
    using assms(1-3) by (intro takeWhile_eq_take_P_nth) auto
  then have "length (takeWhile (\<lambda>v. v \<noteq> 0) offsets) = i"
    using assms(1) by simp
  then show ?thesis
    using assms(4,5) parseSections_eq [of offsets addresses sizes]
    by (simp add: slot_def [abs_def])
qed

theorem parseSections_first_zero_witness:
  "parseSections [0x100, 0x300, 0, 0x500, 0, 0, 0] [1, 2, 3, 4, 5, 6, 7] [8, 9, 10, 11, 12, 13, 14] =
     Inr [\<lparr>address = 1, size_bytes = 8, offset = 0x100\<rparr>,
          \<lparr>address = 2, size_bytes = 9, offset = 0x300\<rparr>]"
proof -
  have "\<forall>j<2. [0x100, 0x300, 0, 0x500, 0, 0, 0 :: int] ! j \<noteq> 0"
    by (simp add: less_Suc_eq numeral_2_eq_2)
  from parseSections_first_zero [of 2 "[0x100, 0x300, 0, 0x500, 0, 0, 0]"
      "[1, 2, 3, 4, 5, 6, 7]" "[8, 9, 10, 11, 12, 13, 14]", OF _ _ this]
  show ?thesis
    by (simp add: upt_rec numeral_2_eq_2)
qed


section \<open>Decoding the header\<close>

lemma length_py_slice: "length (py_slice data a b) = min (b - a) (length data - a)"
  by (simp add: py_slice_def)

lemma py_slice_py_slice:
  "a + c' \<le> b \<Longrightarrow> py_slice (py_slice data a b) c c' = py_slice data (a + c) (a + c')"
proof -
  assume le: "a + c' \<le> b"
  then have m: "min (c' - c) (b - (a + c)) = c' - c"
    by simp
  show ?thesis
    by (simp add: py_slice_def drop_take m add.commute)
qed

lemma py_slice_take: "b \<le> n \<Longrightarrow> py_slice (take n data) a b = py_slice data a b"
proof -
  assume "b \<le> n"
  then have m: "min (b - a) (n - a) = b - a"
    by simp
  show ?thesis
    by (simp add: py_slice_def drop_take m)
qed

lemma unpack_L_py_slice:
  assumes "a + 4 * n \<le> length data"
  shows "unpack_L n (py_slice data a (a + 4 * n)) = Inr (fields32 data a n)"
proof -
  have len: "length (py_slice data a (a + 4 * n)) = 4 * n"
    using assms by (simp add: length_py_slice)
  have "be32 (py_slice (py_slice data a (a + 4 * n)) (4 * k) (4 * k + 4)) = field32 data (a + 4 * k)"
    if "k < n" for k
    using that by (simp add: py_slice_py_slice field32_def add.assoc)
  then show ?thesis
    by (simp add: unpack_L_def len fields32_def)
qed


lemma length_fields32: "length (fields32 data a n) = n"
  by (simp add: fields32_def)

lemma index0_fields32: "index0 (fields32 data a (Suc 0)) = Inr (field32 data a)"
  by (simp add: index0_def fields32_def)

lemma parseSections_slots:
  "length offsets \<le> length addresses \<Longrightarrow> length offsets \<le> length sizes \<Longrightarrow>
   parseSections offsets addresses sizes = Inr (slots offsets addresses sizes)"
  by (simp add: parseSections_eq slots_def)

lemma parseHeader_decoded:
  assumes "0xe4 \<le> length data"
  shows "parseHeader data = Inr (decoded data)"
proof -
  have u: "unpack_L 7 (py_slice data 0x00 0x1c) = Inr (fields32 data 0x00 7)"
    "unpack_L 11 (py_slice data 0x1c 0x48) = Inr (fields32 data 0x1c 11)"
    "unpack_L 7 (py_slice data 0x48 0x64) = Inr (fields32 data 0x48 7)"
    "unpack_L 11 (py_slice data 0x64 0x90) = Inr (fields32 data 0x64 11)"
    "unpack_L 7 (py_slice data 0x90 0xac) = Inr (fields32 data 0x90 7)"
    "unpack_L 11 (py_slice data 0xac 0xd8) = Inr (fields32 data 0xac 11)"
    "unpack_L 1 (py_slice data 0xd8 0xdc) = Inr (fields32 data 0xd8 (Suc 0))"
    "unpack_L 1 (py_slice data 0xdc 0xe0) = Inr (fields32 data 0xdc (Suc 0))"
    "unpack_L 1 (py_slice data 0xe0 0xe4) = Inr (fields32 data 0xe0 (Suc 0))"
    using assms unpack_L_py_slice [of "0x00" 7 data] unpack_L_py_slice [of "0x1c" 11 data]
      unpack_L_py_slice [of "0x48" 7 data] unpack_L_py_slice [of "0x64" 11 data]
      unpack_L_py_slice [of "0x90" 7 data] unpack_L_py_slice [of "0xac" 11 data]
      unpack_L_py_slice [of "0xd8" 1 data] unpack_L_py_slice [of "0xdc" 1 data]
      unpack_L_py_slice [of "0xe0" 1 data]
    by simp_all
  have t: "parseSections (fields32 data 0x00 7) (fields32 data 0x48 7) (fields32 data 0x90 7) =
      Inr (slots (fields32 data 0x00 7) (fields32 data 0x48 7) (fields32 data 0x90 7))"
    by (simp add: parseSections_slots length_fields32)
  have d: "parseSections (fields32 data 0x1c 11) (fields32 data 0x64 11) (fields32 data 0xac 11) =
      Inr (slots (fields32 data 0x1c 11) (fields32 data 0x64 11) (fields32 data 0xac 11))"
    by (simp add: parseSections_slots length_fields32)
  show ?thesis
    unfolding parseHeader_def u bind_err_def sum.case index0_fields32 t d decoded_def Let_def
    by (rule refl)
qed


lemma parseHeader_take: "parseHeader (take 0xe4 data) = parseHeader data"
  unfolding parseHeader_def by (simp only: py_slice_take [of _ "0xe4"] semiring_norm order_refl)

text \<open>
  Claim C8: decoding is total. For every buffer of at least 0xE4 bytes \<open>parseHeader\<close>
  raises nothing and returns a header, whatever values the fields hold.
\<close>

theorem parseHeader_total:
  "0xe4 \<le> length data \<Longrightarrow> \<exists>hdr. parseHeader data = Inr hdr"
  by (simp add: parseHeader_decoded)

theorem parseHeader_total_witness:
  "\<exists>hdr. parseHeader (replicate 0xe4 0xff) = Inr hdr"
  using parseHeader_total [of "replicate 0xe4 0xff"] by simp

text \<open>
  Claim C10: decoding depends only on the first 0xE4 bytes. Two buffers of at least
  0xE4 bytes that agree on the bytes 0 to 0xE3 decode to the same header.
\<close>

theorem parseHeader_prefix_only:
  assumes "0xe4 \<le> length d1" and "0xe4 \<le> length d2"
    and "\<forall>i<0xe4. d1 ! i = d2 ! i"
  shows "parseHeader d1 = parseHeader d2"
proof -
  have "take 0xe4 d1 = take 0xe4 d2"
    using assms by (intro nth_take_lemma) auto
  then have "parseHeader (take 0xe4 d1) = parseHeader (take 0xe4 d2)"
    by simp
  then show ?thesis
    by (simp only: parseHeader_take)
qed

theorem parseHeader_prefix_only_witness:
  "parseHeader (replicate 0xe4 0 @ [1, 2, 3]) = parseHeader (replicate 0xe4 0 @ [4, 5])"
proof -
  have "\<forall>i<0xe4. (replicate 0xe4 (0 :: byte) @ [1, 2, 3]) ! i = (replicate 0xe4 0 @ [4, 5]) ! i"
    by (simp add: nth_append)
  from parseHeader_prefix_only [OF _ _ this] show ?thesis
    by simp
qed

section \<open>BSS sections without obstacles\<close>

lemma be32_nonneg: "0 \<le> be32 bs"
proof -
  have "0 \<le> acc \<Longrightarrow> 0 \<le> foldl (\<lambda>acc b. acc * 256 + uint b) acc bs" for acc :: int and bs :: "byte list"
    by (induction bs arbitrary: acc) simp_all
  then show ?thesis
    by (simp add: be32_def)
qed

lemma field32_nonneg: "0 \<le> field32 data a"
  by (simp add: field32_def be32_nonneg)

lemma carve_no_obstacles:
  "carve bssAddress bssSize [] =
     (if 0 < bssSize then [\<lparr>address = bssAddress, size_bytes = bssSize\<rparr>] else [])"
  by (simp add: carve_def)

text \<open>
  Claim C7: if the decoded BSS address field (at 0xD8) is zero, the BSS section list is
  empty; if it is not zero and there are no text and no data sections, the BSS section
  list is the one fragment \<open>[bssAddress, bssAddress + bssSize)\<close>, or empty when the
  BSS size field (at 0xDC) is zero.
\<close>

theorem bss_without_address_or_obstacles:
  assumes "0xe4 \<le> length data"
  shows "\<exists>hdr. parseHeader data = Inr hdr
           \<and> (field32 data 0xd8 = 0 \<longrightarrow> bssSections hdr = [])
           \<and> (field32 data 0xd8 \<noteq> 0 \<and> textSections hdr = [] \<and> dataSections hdr = [] \<longrightarrow>
                bssSections hdr =
                  (if field32 data 0xdc = 0 then []
                   else [\<lparr>address = field32 data 0xd8, size_bytes = field32 data 0xdc\<rparr>]))"
proof -
  have "0 < field32 data 0xdc \<longleftrightarrow> field32 data 0xdc \<noteq> 0"
    using field32_nonneg [of data "0xdc"] by linarith
  then show ?thesis
    using assms by (auto simp: parseHeader_decoded decoded_def Let_def carve_no_obstacles)
qed

theorem bss_without_address_or_obstacles_witness:
  "(\<exists>hdr. parseHeader zero_image = Inr hdr \<and> bssSections hdr = [])
   \<and> (\<exists>hdr. parseHeader bss_only_image = Inr hdr
          \<and> bssSections hdr = [\<lparr>address = 0x80003400, size_bytes = 0x100\<rparr>])"
proof -
  have len: "0xe4 \<le> length zero_image" "0xe4 \<le> length bss_only_image"
    by (simp_all add: zero_image_def bss_only_image_def)
  have z: "field32 zero_image 0xd8 = 0"
    by code_simp
  have b: "field32 bss_only_image 0xd8 = 0x80003400" "field32 bss_only_image 0xdc = 0x100"
    by code_simp+
  have e: "textSections (decoded bss_only_image) = []" "dataSections (decoded bss_only_image) = []"
    by code_simp+
  from bss_without_address_or_obstacles [OF len(1)] z have first:
    "\<exists>hdr. parseHeader zero_image = Inr hdr \<and> bssSections hdr = []"
    by auto
  from bss_without_address_or_obstacles [OF len(2)] obtain hdr where
    hdr: "parseHeader bss_only_image = Inr hdr"
      "field32 bss_only_image 0xd8 \<noteq> 0 \<and> textSections hdr = [] \<and> dataSections hdr = [] \<longrightarrow>
         bssSections hdr =
           (if field32 bss_only_image 0xdc = 0 then []
            else [\<lparr>address = field32 bss_only_image 0xd8, size_bytes = field32 bss_only_image 0xdc\<rparr>])"
    by blast
  from hdr(1) have "hdr = decoded bss_only_image"
    by (simp add: parseHeader_decoded [OF len(2)])
  with hdr e b have "bssSections hdr = [\<lparr>address = 0x80003400, size_bytes = 0x100\<rparr>]"
    by simp
  with hdr(1) first show ?thesis
    by blast
qed


section \<open>The validator and the file size\<close>

lemma sections_inside_file_mono:
  "sections_inside_file xs filesize \<Longrightarrow> filesize \<le> filesize' \<Longrightarrow>
   sections_inside_file xs filesize'"
  by (induction xs) (auto split: if_splits)

text \<open>
  Claim C5: the validator is monotone in the file size. A header that
  \<open>validateHeader\<close> accepts for a file size is accepted for every larger file size.
\<close>

theorem validateHeader_filesize_mono:
  "validateHeader hdr filesize \<Longrightarrow> filesize < filesize' \<Longrightarrow> validateHeader hdr filesize'"
  unfolding validateHeader_def Let_def
  by (auto split: if_splits dest: sections_inside_file_mono [where filesize' = filesize'])

theorem validateHeader_filesize_mono_witness:
  "validateHeader example_header 0x400 \<and> (0x400 :: int) < 0x500
   \<and> validateHeader example_header 0x500"
proof -
  have small: "validateHeader example_header 0x400"
    by code_simp
  have less: "(0x400 :: int) < 0x500"
    by simp
  have large: "validateHeader example_header 0x500"
    by (rule validateHeader_filesize_mono [OF small less])
  from small less large show ?thesis
    by blast
qed

section \<open>The entry point check\<close>

lemma entrypointValid_iff:
  "entrypointValid xs ep \<longleftrightarrow>
     (\<exists>s\<in>set xs. address s \<le> ep \<and> ep < address s + size_bytes s)"
  by (induction xs) auto

lemma validateHeader_iff:
  "validateHeader hdr filesize \<longleftrightarrow>
     checks_before_entrypoint hdr filesize
     \<and> entrypointValid (textSections hdr) (entrypoint hdr)"
  unfolding validateHeader_def checks_before_entrypoint_def Let_def
  by (auto simp: not_less Suc_le_eq)

text \<open>
  Claim C4, amended: the entry point check uses the half-open extent of the text
  sections. A header whose entry point is the end \<open>address + size\<close> of a text section and
  lies in no other text section is rejected; a header whose entry point is the address of
  a text section of positive size is accepted when the checks before the entry point
  check pass.
\<close>

theorem entrypoint_half_open:
  "(s \<in> set (textSections hdr) \<and> entrypoint hdr = address s + size_bytes s
      \<and> (\<forall>t\<in>set (textSections hdr). t \<noteq> s \<longrightarrow>
            \<not> (address t \<le> entrypoint hdr \<and> entrypoint hdr < address t + size_bytes t))
      \<longrightarrow> \<not> validateHeader hdr filesize)
   \<and> (s \<in> set (textSections hdr) \<and> entrypoint hdr = address s \<and> 0 < size_bytes s
      \<and> checks_before_entrypoint hdr filesize
      \<longrightarrow> validateHeader hdr filesize)"
proof (intro conjI impI)
  assume a: "s \<in> set (textSections hdr) \<and> entrypoint hdr = address s + size_bytes s
      \<and> (\<forall>t\<in>set (textSections hdr). t \<noteq> s \<longrightarrow>
            \<not> (address t \<le> entrypoint hdr \<and> entrypoint hdr < address t + size_bytes t))"
  have "\<not> (address t \<le> entrypoint hdr \<and> entrypoint hdr < address t + size_bytes t)"
    if "t \<in> set (textSections hdr)" for t
    using a that by (cases "t = s") auto
  then have "\<not> entrypointValid (textSections hdr) (entrypoint hdr)"
    unfolding entrypointValid_iff by blast
  then show "\<not> validateHeader hdr filesize"
    by (simp add: validateHeader_iff)
next
  assume "s \<in> set (textSections hdr) \<and> entrypoint hdr = address s \<and> 0 < size_bytes s
      \<and> checks_before_entrypoint hdr filesize"
  then show "validateHeader hdr filesize"
    unfolding validateHeader_iff entrypointValid_iff by force
qed

theorem entrypoint_half_open_witness:
  "\<not> validateHeader (example_header\<lparr>entrypoint := 0x80003300\<rparr>) 0x400
   \<and> checks_before_entrypoint example_header 0x400
   \<and> validateHeader example_header 0x400"
proof -
  let ?s = "\<lparr>address = 0x80003100, size_bytes = 0x200, offset = 0x100\<rparr>"
  have pre: "checks_before_entrypoint example_header 0x400"
    by code_simp
  have one: "\<not> validateHeader (example_header\<lparr>entrypoint := 0x80003300\<rparr>) 0x400"
    using entrypoint_half_open [of ?s "example_header\<lparr>entrypoint := 0x80003300\<rparr>" "0x400"]
    by (simp add: example_header_def)
  have two: "validateHeader example_header 0x400"
    using entrypoint_half_open [of ?s example_header "0x400"] pre
    by (simp add: example_header_def)
  from one pre two show ?thesis
    by blast
qed

text \<open>
  Claim C4 as stated fails for a text section of size 0: its half-open extent is empty,
  so an entry point at its address is rejected although all other checks pass.
\<close>

theorem entrypoint_at_empty_text_section_rejected:
  "entrypoint empty_text_header = address (\<lparr>address = 0x80003100, size_bytes = 0, offset = 0x100\<rparr> :: init_section)
   \<and> textSections empty_text_header = [\<lparr>address = 0x80003100, size_bytes = 0, offset = 0x100\<rparr>]
   \<and> checks_before_entrypoint empty_text_header 0x100
   \<and> \<not> validateHeader empty_text_header 0x100"
  by code_simp

section \<open>Short input\<close>

text \<open>On less than 0xE4 bytes \<open>parseHeader\<close> itself raises \<^verbatim>\<open>struct.error\<close>.\<close>

lemma parseHeader_short:
  assumes "length data < 0xe4"
  shows "parseHeader data = Inl StructError"
proof -
  have "length (py_slice data 0xe0 0xe4) \<noteq> 4 * 1"
    using assms by (simp add: length_py_slice)
  then have last: "unpack_L 1 (py_slice data 0xe0 0xe4) = Inl StructError"
    by (simp add: unpack_L_def)
  have u: "unpack_L n bs = Inl StructError \<or> (\<exists>vs. unpack_L n bs = Inr vs)" for n bs
    by (simp add: unpack_L_def)
  have i: "bind_err (unpack_L n bs) index0 = Inl StructError
      \<or> (\<exists>v. bind_err (unpack_L n bs) index0 = Inr v)" if "n = 1" for n bs
    using that by (simp add: unpack_L_def bind_err_def index0_def upt_rec)
  show ?thesis
    unfolding parseHeader_def
    using u [of 7 "py_slice data 0x00 0x1c"] u [of 11 "py_slice data 0x1c 0x48"]
      u [of 7 "py_slice data 0x48 0x64"] u [of 11 "py_slice data 0x64 0x90"]
      u [of 7 "py_slice data 0x90 0xac"] u [of 11 "py_slice data 0xac 0xd8"]
      i [of 1 "py_slice data 0xd8 0xdc"] i [of 1 "py_slice data 0xdc 0xe0"] last
    by (auto simp: bind_err_def)
qed




section \<open>The carving sweep\<close>

lemma carve_branch_acc:
  "carve_branch c cs ce acc =
     (case carve_branch c cs ce [] of (brk, cs1, new) \<Rightarrow> (brk, cs1, acc @ new))"
  by (simp add: carve_branch_def Let_def)

lemma carve_loop_acc:
  "carve_loop obs cs ce acc =
     (case carve_loop obs cs ce [] of (cs', new) \<Rightarrow> (cs', acc @ new))"
proof (induction obs arbitrary: cs acc)
  case Nil
  show ?case by simp
next
  case (Cons c rest)
  obtain brk cs1 d where d: "carve_branch c cs ce [] = (brk, cs1, d)"
    by (cases "carve_branch c cs ce []") auto
  then have a: "carve_branch c cs ce acc = (brk, cs1, acc @ d)"
    by (subst carve_branch_acc) simp
  show ?case
    using Cons.IH [of cs1 "acc @ d"] Cons.IH [of cs1 d]
    by (simp add: d a split: prod.splits)
qed

lemma carve_loop_Cons_cases [consumes 3, case_names contain left closing inner before empty]:
  assumes "carve_loop (c # rest) cs ce [] = (cs', new)" and "cs \<le> ce" and "0 \<le> size_bytes c"
  obtains
    "address c \<le> cs" and "ce \<le> address c + size_bytes c" and "cs' = ce" and "new = []"
  | "address c \<le> cs" and "cs < address c + size_bytes c" and "address c + size_bytes c < ce"
    and "carve_loop rest (address c + size_bytes c) ce [] = (cs', new)"
  | "cs < address c" and "ce \<le> address c + size_bytes c" and "cs' = ce"
    and "new = [\<lparr>address = cs, size_bytes = address c - cs\<rparr>]"
  | new' where "cs < address c" and "address c + size_bytes c < ce"
    and "carve_loop rest (address c + size_bytes c) ce [] = (cs', new')"
    and "new = \<lparr>address = cs, size_bytes = address c - cs\<rparr> # new'"
  | "address c + size_bytes c \<le> cs" and "cs < ce"
    and "carve_loop rest cs ce [] = (cs', new)"
  | "address c + size_bytes c < cs" and "cs = ce" and "cs' = cs" and "new = []"
proof -
  let ?a = "address c" and ?e = "address c + size_bytes c"
  consider (b1) "?a \<le> cs \<and> ce \<le> ?e"
    | (b2) "\<not> (?a \<le> cs \<and> ce \<le> ?e)" "?a \<le> cs \<and> cs < ?e \<and> ?e < ce"
    | (b3) "\<not> (?a \<le> cs \<and> ce \<le> ?e)" "\<not> (?a \<le> cs \<and> cs < ?e \<and> ?e < ce)" "cs < ?a"
    | (b4) "\<not> (?a \<le> cs \<and> ce \<le> ?e)" "\<not> (?a \<le> cs \<and> cs < ?e \<and> ?e < ce)" "\<not> cs < ?a"
    by blast
  then show thesis
  proof cases
    case b1
    with assms(1) have "cs' = ce" "new = []"
      by (simp_all add: carve_branch_def Let_def)
    with b1 show thesis
      using that(1) by blast
  next
    case b2
    with assms(1) have "carve_loop rest ?e ce [] = (cs', new)"
      by (simp add: carve_branch_def Let_def)
    with b2 show thesis
      using that(2) by blast
  next
    case b3
    then have br: "carve_branch c cs ce [] =
        (False, min ?e ce, [\<lparr>address = cs, size_bytes = ?a - cs\<rparr>])"
      by (simp add: carve_branch_def Let_def)
    show thesis
    proof (cases "ce \<le> ?e")
      case True
      then have "min ?e ce = ce"
        by simp
      with True assms(1) br have "cs' = ce" "new = [\<lparr>address = cs, size_bytes = ?a - cs\<rparr>]"
        by simp_all
      with True b3 show thesis
        using that(3) by blast
    next
      case False
      then have m: "min ?e ce = ?e"
        by simp
      obtain c2 n2 where r: "carve_loop rest ?e ce [] = (c2, n2)"
        by (cases "carve_loop rest ?e ce []") auto
      from False assms(1) br m have
        "carve_loop rest ?e ce [\<lparr>address = cs, size_bytes = ?a - cs\<rparr>] = (cs', new)"
        by simp
      moreover have "carve_loop rest ?e ce [\<lparr>address = cs, size_bytes = ?a - cs\<rparr>] =
          (c2, [\<lparr>address = cs, size_bytes = ?a - cs\<rparr>] @ n2)"
        by (subst carve_loop_acc) (simp add: r)
      ultimately have "cs' = c2" "new = \<lparr>address = cs, size_bytes = ?a - cs\<rparr> # n2"
        by simp_all
      with False b3 r show thesis
        using that(4) [of n2] by simp
    qed
  next
    case b4
    then have br: "carve_branch c cs ce [] = (False, cs, [])"
      by (simp add: carve_branch_def Let_def)
    from b4 assms(3) have le: "?e \<le> cs" "?e < ce"
      by linarith+
    show thesis
    proof (cases "cs < ce")
      case True
      with assms(1) br have "carve_loop rest cs ce [] = (cs', new)"
        by simp
      with True le show thesis
        using that(5) by blast
    next
      case False
      with assms(1) br have "cs' = cs" "new = []"
        by simp_all
      moreover from False assms(2) have "cs = ce"
        by simp
      ultimately show thesis
        using le that(6) by simp
    qed
  qed
qed


lemma swept_weaken_start:
  "swept obs cs1 ce cs' new \<Longrightarrow> cs \<le> cs1 \<Longrightarrow>
   \<forall>p. cs \<le> p \<and> p < cs1 \<longrightarrow> inside c p \<Longrightarrow>
   \<forall>f\<in>set new. address f + size_bytes f \<le> address c \<or> address c + size_bytes c \<le> address f \<Longrightarrow>
   cs' < ce \<longrightarrow> address c + size_bytes c \<le> cs' \<Longrightarrow>
   swept (c # obs) cs ce cs' new"
  unfolding swept_def by (simp add: ball_Un) (metis le_less_linear order_trans)


lemma swept_emit:
  assumes sw: "swept obs (address c + size_bytes c) ce cs' new'"
    and lt: "cs < address c" and nn: "0 \<le> size_bytes c"
    and srt: "\<forall>s\<in>set obs. address c \<le> address s"
  shows "swept (c # obs) cs ce cs' (\<lparr>address = cs, size_bytes = address c - cs\<rparr> # new')"
proof -
  let ?e = "address c + size_bytes c"
  let ?f = "\<lparr>address = cs, size_bytes = address c - cs\<rparr>"
  from sw have b: "?e \<le> cs'" "cs' \<le> ce"
    and fr: "\<forall>f\<in>set new'. ?e \<le> address f \<and> 0 < size_bytes f"
    and so: "sorted_wrt ends_before new'"
    and no: "\<forall>f\<in>set new'. \<forall>s\<in>set obs.
           address f + size_bytes f \<le> address s \<or> address s + size_bytes s \<le> address f"
    and fl: "cs' < ce \<longrightarrow>
           (\<forall>f\<in>set new'. address f + size_bytes f \<le> cs')
           \<and> (\<forall>s\<in>set obs. address s + size_bytes s \<le> cs')"
    and cov: "\<forall>p. ?e \<le> p \<and> p < ce \<longrightarrow>
           (\<exists>s\<in>set obs. inside s p) \<or> (\<exists>f\<in>set new'. inside f p) \<or> cs' \<le> p"
    unfolding swept_def by blast+
  have 1: "cs \<le> cs' \<and> cs' \<le> ce"
    using b lt nn by linarith
  have 2: "\<forall>f\<in>set (?f # new'). cs \<le> address f \<and> 0 < size_bytes f"
    using fr lt nn by force
  have 3: "sorted_wrt ends_before (?f # new')"
    using so fr nn by (auto simp: ends_before_def)
  have 4: "\<forall>f\<in>set (?f # new'). \<forall>s\<in>set (c # obs).
           address f + size_bytes f \<le> address s \<or> address s + size_bytes s \<le> address f"
    using no fr srt by auto
  have 5: "cs' < ce \<longrightarrow>
           (\<forall>f\<in>set (?f # new'). address f + size_bytes f \<le> cs')
           \<and> (\<forall>s\<in>set (c # obs). address s + size_bytes s \<le> cs')"
    using fl b nn by auto
  have 6: "(\<exists>s\<in>set (c # obs). inside s p) \<or> (\<exists>f\<in>set (?f # new'). inside f p) \<or> cs' \<le> p"
    if p: "cs \<le> p \<and> p < ce" for p
  proof -
    consider "p < address c" | "address c \<le> p" "p < ?e" | "?e \<le> p"
      by linarith
    then show ?thesis
    proof cases
      case 1
      with p have "inside ?f p"
        by (simp add: inside_def)
      then show ?thesis
        by simp
    next
      case 2
      then have "inside c p"
        by (simp add: inside_def)
      then show ?thesis
        by simp
    next
      case 3
      with p cov show ?thesis
        by auto
    qed
  qed
  from 1 2 3 4 5 6 show ?thesis
    unfolding swept_def by blast
qed

lemma carve_loop_swept:
  assumes "carve_loop obs cs ce [] = (cs', new)" and "cs \<le> ce"
    and "sorted (map address obs)" and "\<forall>s\<in>set obs. 0 \<le> size_bytes s"
  shows "swept obs cs ce cs' new"
  using assms
proof (induction obs arbitrary: cs cs' new)
  case Nil
  then show ?case
    by (simp add: swept_def)
next
  case (Cons c rest)
  from Cons.prems have nn: "0 \<le> size_bytes c" and nns: "\<forall>s\<in>set rest. 0 \<le> size_bytes s"
    and srt: "\<forall>s\<in>set rest. address c \<le> address s" and srts: "sorted (map address rest)"
    by simp_all
  from Cons.prems(1,2) nn show ?case
  proof (cases rule: carve_loop_Cons_cases)
    case contain
    then show ?thesis
      using Cons.prems(2) by (auto simp: swept_def inside_def)
  next
    case left
    then have ih: "swept rest (address c + size_bytes c) ce cs' new"
      using Cons.IH srts nns by simp
    show ?thesis
    proof (rule swept_weaken_start [OF ih])
      show "cs \<le> address c + size_bytes c"
        using left by simp
      show "\<forall>p. cs \<le> p \<and> p < address c + size_bytes c \<longrightarrow> inside c p"
        using left by (simp add: inside_def)
      show "\<forall>f\<in>set new. address f + size_bytes f \<le> address c
              \<or> address c + size_bytes c \<le> address f"
        using ih by (simp add: swept_def)
      show "cs' < ce \<longrightarrow> address c + size_bytes c \<le> cs'"
        using ih by (simp add: swept_def)
    qed
  next
    case closing
    have "(\<exists>s\<in>set (c # rest). inside s p) \<or> (\<exists>f\<in>set new. inside f p) \<or> cs' \<le> p"
      if "cs \<le> p \<and> p < ce" for p
      using that closing by (cases "p < address c") (auto simp: inside_def)
    then show ?thesis
      using closing srt Cons.prems(2) unfolding swept_def by auto
  next
    case (inner new')
    then have ih: "swept rest (address c + size_bytes c) ce cs' new'"
      using Cons.IH srts nns by simp
    show ?thesis
      unfolding inner(4) by (rule swept_emit [OF ih inner(1) nn srt])
  next
    case before
    then have ih: "swept rest cs ce cs' new"
      using Cons.IH srts nns by simp
    show ?thesis
    proof (rule swept_weaken_start [OF ih])
      show "cs \<le> cs"
        by simp
      show "\<forall>p. cs \<le> p \<and> p < cs \<longrightarrow> inside c p"
        by auto
      show "\<forall>f\<in>set new. address f + size_bytes f \<le> address c
              \<or> address c + size_bytes c \<le> address f"
        using ih before(1) by (auto simp: swept_def)
      show "cs' < ce \<longrightarrow> address c + size_bytes c \<le> cs'"
        using ih before(1) by (auto simp: swept_def)
    qed
  next
    case empty
    then show ?thesis
      by (simp add: swept_def)
  qed
qed


lemma overlap_iff: "overlap s t \<longleftrightarrow> (\<exists>p. inside s p \<and> inside t p)"
proof
  assume "overlap s t"
  then have "inside s (max (address s) (address t)) \<and> inside t (max (address s) (address t))"
    by (auto simp: overlap_def inside_def)
  then show "\<exists>p. inside s p \<and> inside t p" ..
next
  assume "\<exists>p. inside s p \<and> inside t p"
  then show "overlap s t"
    by (auto simp: overlap_def inside_def)
qed

lemma filter_inside_at_most_one:
  "sorted_wrt ends_before frs \<Longrightarrow> length (filter (\<lambda>f. inside f p) frs) \<le> 1"
proof (induction frs)
  case Nil
  show ?case by simp
next
  case (Cons f frs)
  show ?case
  proof (cases "inside f p")
    case True
    with Cons.prems have "\<forall>g\<in>set frs. \<not> inside g p"
      by (auto simp: ends_before_def inside_def)
    then have "filter (\<lambda>f. inside f p) frs = []"
      by (simp add: filter_empty_conv)
    with True show ?thesis
      by simp
  next
    case False
    with Cons show ?thesis
      by simp
  qed
qed

lemma filter_inside_exactly_one:
  assumes "sorted_wrt ends_before frs" and "f \<in> set frs" and "inside f p"
  shows "length (filter (\<lambda>f. inside f p) frs) = 1"
proof -
  from assms(2,3) have "f \<in> set (filter (\<lambda>f. inside f p) frs)"
    by simp
  then have "0 < length (filter (\<lambda>f. inside f p) frs)"
    by (cases "filter (\<lambda>f. inside f p) frs") simp_all
  with filter_inside_at_most_one [OF assms(1), of p] show ?thesis
    by linarith
qed

lemma carve_partition_aux:
  assumes "0 \<le> bssSize" and "\<forall>s\<in>set sections. 0 \<le> size_bytes s"
  shows "sorted_wrt ends_before (carve bssAddress bssSize sections)"
    and "\<forall>f\<in>set (carve bssAddress bssSize sections). 0 < size_bytes f"
    and "\<forall>f\<in>set (carve bssAddress bssSize sections). \<forall>s\<in>set sections. \<not> overlap f s"
    and "\<forall>p. bssAddress \<le> p \<and> p < bssAddress + bssSize \<longrightarrow>
           (\<exists>s\<in>set sections. inside s p)
           \<or> (\<exists>f\<in>set (carve bssAddress bssSize sections). inside f p)"
proof -
  let ?ce = "bssAddress + bssSize"
  obtain cs' new where
    run: "carve_loop (sort_key address sections) bssAddress ?ce [] = (cs', new)"
    by (cases "carve_loop (sort_key address sections) bssAddress ?ce []") auto
  let ?flush = "\<lparr>address = cs', size_bytes = ?ce - cs'\<rparr>"
  have frs: "carve bssAddress bssSize sections = (if cs' < ?ce then new @ [?flush] else new)"
    by (simp add: carve_def Let_def run)
  have "swept (sort_key address sections) bssAddress ?ce cs' new"
    using run assms by (intro carve_loop_swept) simp_all
  then have b: "bssAddress \<le> cs'" "cs' \<le> ?ce"
    and fr: "\<forall>f\<in>set new. bssAddress \<le> address f \<and> 0 < size_bytes f"
    and so: "sorted_wrt ends_before new"
    and no: "\<forall>f\<in>set new. \<forall>s\<in>set sections.
           address f + size_bytes f \<le> address s \<or> address s + size_bytes s \<le> address f"
    and fl: "cs' < ?ce \<longrightarrow>
           (\<forall>f\<in>set new. address f + size_bytes f \<le> cs')
           \<and> (\<forall>s\<in>set sections. address s + size_bytes s \<le> cs')"
    and cov: "\<forall>p. bssAddress \<le> p \<and> p < ?ce \<longrightarrow>
           (\<exists>s\<in>set sections. inside s p) \<or> (\<exists>f\<in>set new. inside f p) \<or> cs' \<le> p"
    unfolding swept_def by simp_all
  show "sorted_wrt ends_before (carve bssAddress bssSize sections)"
    using so fl by (simp add: frs sorted_wrt_append ends_before_def)
  show "\<forall>f\<in>set (carve bssAddress bssSize sections). 0 < size_bytes f"
    using fr by (simp add: frs)
  have "\<not> overlap f s"
    if "address f + size_bytes f \<le> address s \<or> address s + size_bytes s \<le> address f"
    for f :: bss_section and s :: init_section
    using that by (auto simp: overlap_def)
  then show "\<forall>f\<in>set (carve bssAddress bssSize sections). \<forall>s\<in>set sections. \<not> overlap f s"
    using no fl by (simp add: frs)
  show "\<forall>p. bssAddress \<le> p \<and> p < bssAddress + bssSize \<longrightarrow>
           (\<exists>s\<in>set sections. inside s p)
           \<or> (\<exists>f\<in>set (carve bssAddress bssSize sections). inside f p)"
  proof (intro allI impI)
    fix p
    assume p: "bssAddress \<le> p \<and> p < bssAddress + bssSize"
    with cov consider "\<exists>s\<in>set sections. inside s p" | "\<exists>f\<in>set new. inside f p" | "cs' \<le> p"
      by blast
    then show "(\<exists>s\<in>set sections. inside s p)
           \<or> (\<exists>f\<in>set (carve bssAddress bssSize sections). inside f p)"
    proof cases
      case 1
      then show ?thesis ..
    next
      case 2
      then show ?thesis
        by (auto simp: frs)
    next
      case 3
      with p have "cs' < ?ce" "inside ?flush p"
        by (simp_all add: inside_def)
      then show ?thesis
        by (simp add: frs)
    qed
  qed
qed

text \<open>
  What the sweep does guarantee, for every nominal BSS range and every list of obstacle
  sections with sizes that are not negative: every point of the nominal range lies inside
  an obstacle and in no fragment, or in no obstacle and inside exactly one fragment; the
  fragments are not empty, each ends at or before the start of every later one, none
  overlaps an obstacle, and they are in ascending address order. Nothing here bounds a
  fragment by the nominal range.
\<close>

theorem carve_partition:
  assumes "0 \<le> bssSize" and "\<forall>s\<in>set sections. 0 \<le> size_bytes s"
  shows "(\<forall>p. bssAddress \<le> p \<and> p < bssAddress + bssSize \<longrightarrow>
            length (filter (\<lambda>f. inside f p) (carve bssAddress bssSize sections)) =
              (if \<exists>s\<in>set sections. inside s p then 0 else 1))
         \<and> sorted_wrt ends_before (carve bssAddress bssSize sections)
         \<and> (\<forall>f\<in>set (carve bssAddress bssSize sections). 0 < size_bytes f)
         \<and> (\<forall>f\<in>set (carve bssAddress bssSize sections). \<forall>s\<in>set sections. \<not> overlap f s)
         \<and> sorted (map address (carve bssAddress bssSize sections))"
proof -
  let ?frs = "carve bssAddress bssSize sections"
  note aux = carve_partition_aux [OF assms, of bssAddress]
  have count: "length (filter (\<lambda>f. inside f p) ?frs) =
      (if \<exists>s\<in>set sections. inside s p then 0 else 1)"
    if p: "bssAddress \<le> p \<and> p < bssAddress + bssSize" for p
  proof (cases "\<exists>s\<in>set sections. inside s p")
    case True
    then obtain s where s: "s \<in> set sections" "inside s p" ..
    have "\<not> inside f p" if "f \<in> set ?frs" for f
      using aux(3) that s overlap_iff [of f s] by blast
    then have "filter (\<lambda>f. inside f p) ?frs = []"
      by (simp add: filter_empty_conv)
    with True show ?thesis
      by simp
  next
    case False
    with aux(4) p obtain f where "f \<in> set ?frs" "inside f p"
      by blast
    with aux(1) have "length (filter (\<lambda>f. inside f p) ?frs) = 1"
      by (rule filter_inside_exactly_one)
    with False show ?thesis
      by simp
  qed
  have "sorted_wrt (\<lambda>f g. address f \<le> address g) ?frs"
  proof (rule sorted_wrt_mono_rel [OF _ aux(1)])
    fix f g
    assume "f \<in> set ?frs" "g \<in> set ?frs" "ends_before f g"
    with aux(2) show "address f \<le> address g"
      by (fastforce simp: ends_before_def)
  qed
  then have "sorted (map address ?frs)"
    by (simp add: sorted_map)
  with count aux(1,2,3) show ?thesis
    by blast
qed


theorem carve_partition_witness:
  "length (filter (\<lambda>f. inside f 0x80003410) (carve 0x80003400 0x100 inner_obstacle)) = 1
   \<and> length (filter (\<lambda>f. inside f 0x80003450) (carve 0x80003400 0x100 inner_obstacle)) = 0
   \<and> sorted_wrt ends_before (carve 0x80003400 0x100 inner_obstacle)"
proof -
  have h1: "(0 :: int) \<le> 0x100"
    by simp
  have h2: "\<forall>s\<in>set inner_obstacle. 0 \<le> size_bytes s"
    by (simp add: inner_obstacle_def)
  note part = carve_partition [OF h1 h2, of "0x80003400"]
  from part have c: "\<And>p. 0x80003400 \<le> p \<and> p < 0x80003400 + 0x100 \<Longrightarrow>
      length (filter (\<lambda>f. inside f p) (carve 0x80003400 0x100 inner_obstacle)) =
        (if \<exists>s\<in>set inner_obstacle. inside s p then 0 else 1)"
    by blast
  have one: "length (filter (\<lambda>f. inside f 0x80003410) (carve 0x80003400 0x100 inner_obstacle)) = 1"
    using c [of "0x80003410"] by (simp add: inner_obstacle_def inside_def)
  have none: "length (filter (\<lambda>f. inside f 0x80003450) (carve 0x80003400 0x100 inner_obstacle)) = 0"
    using c [of "0x80003450"] by (simp add: inner_obstacle_def inside_def)
  from part one none show ?thesis
    by blast
qed

text \<open>
  Claim C2 says that the fragments are a partition of the uncovered part of the nominal
  range. The code breaks it: for the range \<open>[0x80003400, 0x80003500)\<close> and the obstacle
  at 0x80004000 the only fragment is \<open>[0x80003400, 0x80004000)\<close>; the point 0x80003800
  lies inside it and outside the nominal range. For the empty range of size 0 at
  0x80003400 the same fragment is emitted.
\<close>

theorem fragments_exceed_uncovered_range:
  "carve 0x80003400 0x100 stray_obstacle = [\<lparr>address = 0x80003400, size_bytes = 0xC00\<rparr>]
   \<and> inside \<lparr>address = 0x80003400, size_bytes = 0xC00\<rparr> 0x80003800
   \<and> \<not> (0x80003400 \<le> (0x80003800 :: int) \<and> (0x80003800 :: int) < 0x80003400 + 0x100)
   \<and> \<not> sub_interval \<lparr>address = 0x80003400, size_bytes = 0xC00\<rparr> 0x80003400 0x100
   \<and> carve 0x80003400 0 stray_obstacle = [\<lparr>address = 0x80003400, size_bytes = 0xC00\<rparr>]"
  by code_simp

text \<open>
  Claim C1 says that every emitted fragment is a sub-interval of the nominal range and
  that an obstacle starting at or beyond \<open>current_end\<close> changes neither the fragments nor
  the window. The code breaks it: for the data section at 0x80004000 the branch
  \<^verbatim>\<open>carving_start > current_start\<close> appends the fragment \<open>[0x80003400, 0x80004000)\<close>,
  which ends behind the nominal end 0x80003500, and closes the window.
\<close>

theorem fragment_beyond_nominal_range:
  "parseHeader stray_data_image =
     Inr \<lparr>textSections = [\<lparr>address = 0x80003100, size_bytes = 0x200, offset = 0x100\<rparr>],
          dataSections = [\<lparr>address = 0x80004000, size_bytes = 0x100, offset = 0x300\<rparr>],
          bssSections = [\<lparr>address = 0x80003400, size_bytes = 0xC00\<rparr>],
          entrypoint = 0x80003100\<rparr>
   \<and> \<not> sub_interval \<lparr>address = 0x80003400, size_bytes = 0xC00\<rparr> 0x80003400 0x100
   \<and> carve_branch \<lparr>address = 0x80004000, size_bytes = 0x100, offset = 0x300\<rparr>
         0x80003400 0x80003500 [] =
       (False, 0x80003500, [\<lparr>address = 0x80003400, size_bytes = 0xC00\<rparr>])"
  by code_simp

text \<open>An obstacle that ends at or before \<open>current_start\<close> changes nothing.\<close>

lemma carve_branch_obstacle_before:
  "address c + size_bytes c \<le> current_start \<Longrightarrow> current_start < current_end \<Longrightarrow>
   0 \<le> size_bytes c \<Longrightarrow>
   carve_branch c current_start current_end fragments = (False, current_start, fragments)"
  by (simp add: carve_branch_def Let_def)

text \<open>The sizes that the decoder hands to the carving are not negative.\<close>

lemma slots_size_nonneg:
  assumes "\<forall>v\<in>set sizes. 0 \<le> v" and "length offsets \<le> length sizes"
  shows "\<forall>s\<in>set (slots offsets addresses sizes). 0 \<le> size_bytes s"
proof -
  have "length (takeWhile (\<lambda>v. v \<noteq> 0) offsets) \<le> length sizes"
    using assms(2) length_takeWhile_le [of "\<lambda>v. v \<noteq> 0" offsets] by linarith
  with assms(1) show ?thesis
    by (auto simp: slots_def slot_def)
qed

lemma decoded_sizes_nonneg:
  "\<forall>s\<in>set (textSections (decoded data) @ dataSections (decoded data)). 0 \<le> size_bytes s"
proof -
  have nn: "\<forall>v\<in>set (fields32 data a n). 0 \<le> v" for a n
    by (simp add: fields32_def field32_nonneg)
  have "\<forall>s\<in>set (slots (fields32 data a n) (fields32 data b n) (fields32 data c n)).
      0 \<le> size_bytes s" for a b c n
    by (rule slots_size_nonneg [OF nn]) (simp add: length_fields32)
  then show ?thesis
    by (simp add: decoded_def Let_def ball_Un)
qed

section \<open>The validator leaves its argument unchanged\<close>

lemma load_header_SomeD:
  assumes "load_header st h = Some hdr"
  obtains hd where "header_dicts st h = Some hd"
    and "section_lists st (textSections_ref hd) = Some (textSections hdr)"
    and "section_lists st (dataSections_ref hd) = Some (dataSections hdr)"
    and "extent_lists st (bssSections_ref hd) = Some (bssSections hdr)"
    and "entrypoint_val hd = entrypoint hdr"
  using assms unfolding load_header_def
  by (auto split: Option.bind_splits)

text \<open>
  Claim C9: the validator has no side effects on its input. For every header object
  whose lists are allocated and every file size, \<open>validateHeader\<close> returns (the value of
  the function \<open>validateHeader\<close> on the header), and afterwards the header dict, its
  section lists with their order, and its entry point are as before the call: every
  object that existed before the call is unchanged.
\<close>

theorem validateHeader_st_frame:
  assumes "load_header st h = Some hdr" and "allocated st h"
  shows "\<exists>st'. validateHeader_st st h filesize = Some (validateHeader hdr filesize, st')
           \<and> load_header st' h = Some hdr
           \<and> header_dicts st' = header_dicts st
           \<and> (\<forall>r<next_ref st. section_lists st' r = section_lists st r
                  \<and> extent_lists st' r = extent_lists st r)"
proof -
  from assms(1) obtain hd where hd: "header_dicts st h = Some hd"
    and ts: "section_lists st (textSections_ref hd) = Some (textSections hdr)"
    and ds: "section_lists st (dataSections_ref hd) = Some (dataSections hdr)"
    and bs: "extent_lists st (bssSections_ref hd) = Some (bssSections hdr)"
    and ep: "entrypoint_val hd = entrypoint hdr"
    by (rule load_header_SomeD)
  from assms(2) hd have lt: "textSections_ref hd < next_ref st"
    "dataSections_ref hd < next_ref st" "bssSections_ref hd < next_ref st"
    by (simp_all add: allocated_def)
  then have ne: "textSections_ref hd \<noteq> next_ref st" "textSections_ref hd \<noteq> Suc (next_ref st)"
    "textSections_ref hd \<noteq> Suc (Suc (next_ref st))"
    "textSections_ref hd \<noteq> Suc (Suc (Suc (next_ref st)))"
    "dataSections_ref hd \<noteq> next_ref st" "dataSections_ref hd \<noteq> Suc (next_ref st)"
    "dataSections_ref hd \<noteq> Suc (Suc (next_ref st))"
    "dataSections_ref hd \<noteq> Suc (Suc (Suc (next_ref st)))"
    "bssSections_ref hd \<noteq> next_ref st" "bssSections_ref hd \<noteq> Suc (next_ref st)"
    "bssSections_ref hd \<noteq> Suc (Suc (next_ref st))"
    "bssSections_ref hd \<noteq> Suc (Suc (Suc (next_ref st)))"
    by simp_all
  show ?thesis
    unfolding validateHeader_st_def validateHeader_def load_header_def
    by (simp add: hd ts ds bs ep ne Let_def new_section_list_def new_extent_list_def
        sort_section_list_by_offset_def sort_extent_list_by_address_def)
qed


theorem validateHeader_st_frame_witness:
  "allocated example_store 3
   \<and> (\<exists>st'. validateHeader_st example_store 3 0x400 = Some (True, st')
          \<and> load_header st' 3 = load_header example_store 3)"
proof -
  let ?hdr = "\<lparr>textSections = [\<lparr>address = 0x80003100, size_bytes = 0x200, offset = 0x100\<rparr>],
      dataSections = [\<lparr>address = 0x80003300, size_bytes = 0x40, offset = 0x40\<rparr>],
      bssSections = [\<lparr>address = 0x80003400, size_bytes = 0x100\<rparr>],
      entrypoint = 0x80003100\<rparr>"
  have load: "load_header example_store 3 = Some ?hdr"
    by (simp add: load_header_def example_store_def)
  have alloc: "allocated example_store 3"
    by (simp add: allocated_def example_store_def)
  have valid: "validateHeader ?hdr 0x400"
    by code_simp
  from validateHeader_st_frame [OF load alloc, of "0x400"] valid load alloc show ?thesis
    by auto
qed

end
